theory Spec2Isabelle
  imports Complex_Main "HOL-Library.Sublist" "HOL-Library.Multiset"
begin

section \<open>Python strings\<close>

text \<open>
  A Python \<open>str\<close> is modelled as a \<open>string\<close> (a list of characters), one \<open>char\<close> per code
  point; the model covers the code points below 256. The backslash and the newline cannot
  be written inside a string literal, so they are named.
\<close>

abbreviation (input) BS :: char where
  "BS \<equiv> CHR 0x5C"

abbreviation (input) NL :: char where
  "NL \<equiv> CHR 0x0A"

abbreviation (input) QT :: char where
  "QT \<equiv> CHR 0x27"

text \<open>\<open>str.isspace\<close> on one character: the whitespace that \<open>str.strip()\<close> removes.\<close>

definition isspace :: "char \<Rightarrow> bool" where
  "isspace c =
     (let n = (of_char c :: nat)
      in (9 \<le> n \<and> n \<le> 13) \<or> (28 \<le> n \<and> n \<le> 32) \<or> n = 0x85 \<or> n = 0xA0)"

text \<open>\<open>s.strip()\<close>: leading and trailing whitespace removed.\<close>

definition strip :: "string \<Rightarrow> string" where
  "strip s = rev (dropWhile isspace (rev (dropWhile isspace s)))"

text \<open>\<open>s.lower()\<close>, character by character.\<close>

definition lower_char :: "char \<Rightarrow> char" where
  "lower_char c =
     (let n = (of_char c :: nat)
      in if (0x41 \<le> n \<and> n \<le> 0x5A) \<or> (0xC0 \<le> n \<and> n \<le> 0xDE \<and> n \<noteq> 0xD7)
         then char_of (n + 32) else c)"

definition lower :: "string \<Rightarrow> string" where
  "lower s = map lower_char s"

text \<open>\<open>s.startswith(p)\<close>.\<close>

definition startswith :: "string \<Rightarrow> string \<Rightarrow> bool" where
  "startswith s p = prefix p s"

text \<open>\<open>p in s\<close>: \<open>p\<close> occurs in \<open>s\<close> as a contiguous substring.\<close>

fun contains :: "string \<Rightarrow> string \<Rightarrow> bool" where
  "contains [] p = (p = [])"
| "contains (x # xs) p = (prefix p (x # xs) \<or> contains xs p)"

text \<open>
  \<open>s.replace(old, new)\<close>: every non-overlapping occurrence of \<open>old\<close>, leftmost first, is
  replaced. \<open>re.sub\<close> with a pattern that has no metacharacter does the same.
\<close>

function replace :: "string \<Rightarrow> string \<Rightarrow> string \<Rightarrow> string" where
  "replace [] old new = (if old = [] then new else [])"
| "replace (x # xs) old new =
     (if old = [] then new @ x # replace xs old new
      else if prefix old (x # xs) then new @ replace (drop (length old) (x # xs)) old new
      else x # replace xs old new)"
  by pat_completeness auto
termination
  by (relation "measure (\<lambda>(s, old, new). length s)") (auto simp: Suc_diff_le)

text \<open>\<open>s.count(c)\<close> for a pattern of one character.\<close>

definition count_str :: "string \<Rightarrow> char \<Rightarrow> nat" where
  "count_str s c = count_list s c"

text \<open>\<open>s.split(sep)\<close> for a separator of one character; the result is never empty.\<close>

fun split :: "string \<Rightarrow> char \<Rightarrow> string list" where
  "split [] sep = [[]]"
| "split (x # xs) sep =
     (if x = sep then [] # split xs sep
      else (case split xs sep of [] \<Rightarrow> [[x]] | l # ls \<Rightarrow> (x # l) # ls))"

text \<open>\<open>sep.join(xs)\<close>.\<close>

fun join :: "string \<Rightarrow> string list \<Rightarrow> string" where
  "join sep [] = []"
| "join sep [x] = x"
| "join sep (x # y # ys) = x @ sep @ join sep (y # ys)"

section \<open>Regular expressions of the validator\<close>

text \<open>The class \<open>\w\<close> of a \<open>str\<close> pattern: alphanumeric characters and the underscore.\<close>

definition is_word_char :: "char \<Rightarrow> bool" where
  "is_word_char c =
     (let n = (of_char c :: nat)
      in (0x30 \<le> n \<and> n \<le> 0x39) \<or> (0x41 \<le> n \<and> n \<le> 0x5A) \<or> n = 0x5F
         \<or> (0x61 \<le> n \<and> n \<le> 0x7A)
         \<or> n = 0xAA \<or> n = 0xB2 \<or> n = 0xB3 \<or> n = 0xB5 \<or> n = 0xB9 \<or> n = 0xBA
         \<or> (0xBC \<le> n \<and> n \<le> 0xBE) \<or> (0xC0 \<le> n \<and> n \<le> 0xD6)
         \<or> (0xD8 \<le> n \<and> n \<le> 0xF6) \<or> 0xF8 \<le> n)"

text \<open>
  One attempt to match \<open>kw\{(\w+)\}\<close> at the head of the text, where \<open>kw\<close> is the literal
  \<open>\begin\<close> or \<open>\end\<close>. The greedy \<open>\w+\<close> takes the longest run of word characters; a
  shorter run is followed by a word character, never by the brace, so backtracking finds
  nothing more. The result is the captured group and the text after the match.
\<close>

definition match_env :: "string \<Rightarrow> string \<Rightarrow> (string \<times> string) option" where
  "match_env kw s =
     (if prefix (kw @ ''{'') s
      then (let body = drop (length kw + 1) s;
                name = takeWhile is_word_char body;
                after = dropWhile is_word_char body
            in if name \<noteq> [] \<and> prefix ''}'' after then Some (name, drop 1 after) else None)
      else None)"

text \<open>
  \<open>re.findall(kw\{(\w+)\}, s)\<close>: the text is scanned from the left; after a match the scan
  resumes behind it, otherwise one character further.
\<close>

function findall_env :: "string \<Rightarrow> string \<Rightarrow> string list" where
  "findall_env kw [] = []"
| "findall_env kw (x # xs) =
     (case match_env kw (x # xs) of
        Some (name, rest) \<Rightarrow> name # findall_env kw rest
      | None \<Rightarrow> findall_env kw xs)"
  by pat_completeness auto
termination
proof (relation "measure (\<lambda>(kw, s). length s)")
  show "wf (measure (\<lambda>(kw, s). length s))" by simp
next
  fix kw :: string and x :: char and xs :: string
  show "((kw, xs), (kw, x # xs)) \<in> measure (\<lambda>(kw, s). length s)" by simp
next
  fix kw :: string and x xs x2 name rest
  assume "match_env kw (x # xs) = Some x2" "(name, rest) = x2"
  then have m: "match_env kw (x # xs) = Some (name, rest)" by simp
  let ?body = "drop (length kw + 1) (x # xs)"
  from m have p: "prefix (kw @ ''{'') (x # xs)"
    by (auto simp: match_env_def split: if_splits)
  from m p have r: "rest = drop 1 (dropWhile is_word_char ?body)"
    by (auto simp: match_env_def Let_def split: if_splits)
  have "length (dropWhile is_word_char ?body) \<le> length ?body"
    by (rule length_dropWhile_le)
  moreover from p have "length ?body < length (x # xs)"
    by (auto simp: prefix_def)
  ultimately have "length rest < length (x # xs)" using r by simp
  then show "((kw, rest), (kw, x # xs)) \<in> measure (\<lambda>(kw, s). length s)" by simp
qed

section \<open>The structural validator\<close>

definition msg_braces :: string where
  "msg_braces = ''Unbalanced braces: {} count mismatch''"

definition msg_brackets :: string where
  "msg_brackets = ''Unbalanced brackets: [] count mismatch''"

definition msg_environments :: string where
  "msg_environments =
     ''Unbalanced environments: '' @ BS # ''begin{} and '' @ BS # ''end{} count mismatch''"

definition msg_unclosed :: "string \<Rightarrow> string" where
  "msg_unclosed env = ''Environment '' @ QT # env @ QT # '' opened but not closed''"

text \<open>The loop over \<open>begins\<close>: it returns at the first name that is not in \<open>ends\<close>.\<close>

fun check_closed :: "string list \<Rightarrow> string list \<Rightarrow> bool \<times> string option" where
  "check_closed [] ends = (True, None)"
| "check_closed (env # begins) ends =
     (if env \<notin> set ends then (False, Some (msg_unclosed env))
      else check_closed begins ends)"

definition validate_latex :: "string \<Rightarrow> bool \<times> string option" where
  "validate_latex latex_code =
     (if count_str latex_code CHR ''{'' \<noteq> count_str latex_code CHR ''}''
      then (False, Some msg_braces)
      else if count_str latex_code CHR ''['' \<noteq> count_str latex_code CHR '']''
      then (False, Some msg_brackets)
      else (let begins = findall_env (BS # ''begin'') latex_code;
                ends = findall_env (BS # ''end'') latex_code
            in if length begins \<noteq> length ends
               then (False, Some msg_environments)
               else check_closed begins ends))"

section \<open>The formatter\<close>

datatype ContentType = EQUATION | TABLE | DIAGRAM | DOCUMENT | UNKNOWN

definition DOCUMENT_PACKAGES :: "string list" where
  "DOCUMENT_PACKAGES =
     [BS # ''usepackage{amsmath}'',
      BS # ''usepackage{amssymb}'',
      BS # ''usepackage{amsfonts}'',
      BS # ''usepackage{graphicx}'',
      BS # ''usepackage{booktabs}'',
      BS # ''usepackage{tikz}'']"

text \<open>The delimiters that \<open>wrap_equation\<close> removes, in the order of its loop.\<close>

definition DELIMITERS :: "string list" where
  "DELIMITERS = [[BS, CHR ''[''], [BS, CHR '']''], ''$$'', ''$'']"

definition wrap_equation :: "string \<Rightarrow> bool \<Rightarrow> string" where
  "wrap_equation latex_code inline =
     (let code0 = strip latex_code;
          code1 = foldl (\<lambda>code delim. replace code delim []) code0 DELIMITERS;
          code = strip code1
      in if inline then ''$'' @ code @ ''$''
         else if contains code [BS, BS] \<or> contains (lower code) ''align''
         then (if \<not> startswith code (BS # ''begin{align'')
               then BS # ''begin{align}'' @ [NL] @ code @ [NL] @ BS # ''end{align}''
               else code)
         else (if \<not> startswith code (BS # ''begin{equation'')
               then BS # ''begin{equation}'' @ [NL] @ code @ [NL] @ BS # ''end{equation}''
               else code))"

text \<open>
  Python's truth value of an \<open>Optional[str]\<close>: \<open>None\<close> and the empty string are false.
\<close>

fun truthy :: "string option \<Rightarrow> bool" where
  "truthy None = False"
| "truthy (Some t) = (t \<noteq> [])"

definition create_full_document ::
  "string \<Rightarrow> string option \<Rightarrow> string option \<Rightarrow> string \<Rightarrow> string" where
  "create_full_document latex_content title author document_class =
     (let doc0 = BS # ''documentclass{'' @ document_class @ ''}'' @ [NL, NL];
          doc1 = foldl (\<lambda>doc package. doc @ package @ [NL]) doc0 DOCUMENT_PACKAGES;
          doc2 = doc1 @ [NL] @ BS # ''begin{document}'' @ [NL, NL];
          doc3 = (if truthy title
                  then (let d = doc2 @ BS # ''title{'' @ the title @ ''}'' @ [NL];
                            d' = (if truthy author
                                  then d @ BS # ''author{'' @ the author @ ''}'' @ [NL]
                                  else d)
                        in d' @ BS # ''maketitle'' @ [NL, NL])
                  else doc2);
          doc4 = doc3 @ latex_content @ [NL, NL]
      in doc4 @ BS # ''end{document}'' @ [NL])"

text \<open>The explanatory phrases that \<open>extract_latex_code\<close> skips before the first LaTeX line.\<close>

definition SKIP_PHRASES :: "string list" where
  "SKIP_PHRASES =
     [''here is'', ''here'' @ QT # ''s'', ''the latex'', ''this is'',
      ''i'' @ QT # ''ve converted'', ''converted to'', ''latex code:'',
      ''explanation:'', ''note:'']"

text \<open>The four \<open>re.sub\<close> calls that remove the markdown code fences.\<close>

definition remove_fences :: "string \<Rightarrow> string" where
  "remove_fences text =
     (let t1 = replace text (''```latex'' @ [NL]) [];
          t2 = replace t1 (''```tex'' @ [NL]) [];
          t3 = replace t2 (''```'' @ [NL]) []
      in replace t3 ''```'' [])"

text \<open>
  One iteration of the loop over the lines. The state is \<open>started\<close> and \<open>latex_lines\<close>.
  The \<open>continue\<close> of a skipped line leaves the state as it is, without looking at the
  line's first character.
\<close>

definition extract_step :: "bool \<times> string list \<Rightarrow> string \<Rightarrow> bool \<times> string list" where
  "extract_step st line =
     (let started = fst st; latex_lines = snd st;
          line_lower = strip (lower line)
      in if \<not> started \<and> list_ex (\<lambda>skip. contains line_lower skip) SKIP_PHRASES
         then (started, latex_lines)
         else (let started' = (if startswith (strip line) [BS] \<or> startswith (strip line) ''$''
                               then True else started)
               in (started', if started' then latex_lines @ [line] else latex_lines)))"

definition extract_latex_code :: "string \<Rightarrow> string" where
  "extract_latex_code text0 =
     (let text = remove_fences text0;
          lines = split text NL;
          latex_lines = snd (foldl extract_step (False, []) lines);
          result = strip (join [NL] latex_lines)
      in if result = [] then strip text else result)"

definition detect_content_type :: "string \<Rightarrow> ContentType" where
  "detect_content_type latex_code =
     (let latex_lower = lower latex_code
      in if contains latex_lower (BS # ''documentclass'') \<or> contains latex_lower (BS # ''maketitle'')
         then DOCUMENT
         else if contains latex_lower (BS # ''begin{table'')
                 \<or> contains latex_lower (BS # ''begin{tabular'')
         then TABLE
         else if list_ex (\<lambda>keyword. contains latex_lower keyword)
                   [BS # ''begin{tikz'', BS # ''begin{figure'', BS # ''includegraphics'']
         then DIAGRAM
         else if list_ex (\<lambda>keyword. contains latex_lower keyword)
                   [BS # ''begin{equation'', BS # ''begin{align'', [BS, CHR ''[''], ''$'',
                    BS # ''frac'', BS # ''int'', BS # ''sum'', BS # ''alpha'']
         then EQUATION
         else UNKNOWN)"

section \<open>The image handler\<close>

text \<open>
  What \<open>validate_image\<close> reads of the file system: whether the path exists, whether it is a
  regular file, its size in bytes, and what \<open>Image.open\<close> makes of its content: an exception
  (with its message) or an image, whose \<open>format\<close> comes from the header of the data, not
  from the name of the file.
\<close>

record pil_image =
  format :: "string option"
  size_img :: "nat \<times> nat"

record file_entry =
  is_file :: bool
  st_size :: nat
  image_open :: "string + pil_image"

type_synonym filesystem = "string \<rightharpoonup> file_entry"

definition SUPPORTED_FORMATS :: "string list" where
  "SUPPORTED_FORMATS = [''PNG'', ''JPEG'', ''JPG'', ''GIF'', ''WEBP'', ''BMP'', ''TIFF'']"

definition MAX_SIZE_MB :: nat where
  "MAX_SIZE_MB = 20"

text \<open>
  Every constructor is an \<open>ImageHandlerError\<close>; it records which of the five \<open>raise\<close>
  statements produced it and the values that its message is formatted from.
\<close>

datatype ImageHandlerError =
    NotFound string
  | NotAFile string
  | TooLarge rat
  | UnsupportedFormat "string option"
  | FailedToOpen string

text \<open>
  The size in megabytes is the quotient by \<open>1024 * 1024\<close>. Python computes it in floating
  point; the division of an integer by a power of two is exact below \<open>2 ^ 53\<close> and
  correctly rounded above, so the comparison with the limit is that of the exact quotient.
\<close>

definition validate_image :: "filesystem \<Rightarrow> string \<Rightarrow> ImageHandlerError + bool" where
  "validate_image fs image_path =
     (case fs image_path of
        None \<Rightarrow> Inl (NotFound image_path)
      | Some f \<Rightarrow>
          if \<not> is_file f then Inl (NotAFile image_path)
          else (let file_size_mb = (of_nat (st_size f) :: rat) / (1024 * 1024)
                in if file_size_mb > of_nat MAX_SIZE_MB then Inl (TooLarge file_size_mb)
                   else (case image_open f of
                           Inl e \<Rightarrow> Inl (FailedToOpen e)
                         | Inr img \<Rightarrow>
                             if \<not> (case format img of
                                      None \<Rightarrow> False
                                    | Some fmt \<Rightarrow> fmt \<in> set SUPPORTED_FORMATS)
                             then Inl (UnsupportedFormat (format img))
                             else Inr True)))"

section \<open>The vision client\<close>

datatype ModelProvider = CLAUDE | OPENAI | NONE

text \<open>
  A raised exception, with its message (\<open>str(e)\<close>). \<open>NoAPIKeyError\<close> is a subclass of
  \<open>VisionClientError\<close>; \<open>OtherException\<close> stands for every other subclass of \<open>Exception\<close>
  (a missing file, a failure of the provider's SDK).
\<close>

datatype exn = VisionClientError string | NoAPIKeyError string | OtherException string

fun str :: "exn \<Rightarrow> string" where
  "str (VisionClientError m) = m"
| "str (NoAPIKeyError m) = m"
| "str (OtherException m) = m"

fun is_VisionClientError :: "exn \<Rightarrow> bool" where
  "is_VisionClientError (VisionClientError m) = True"
| "is_VisionClientError (NoAPIKeyError m) = True"
| "is_VisionClientError (OtherException m) = False"

text \<open>
  A configured provider client: encoding the image at the path and sending it with the
  prompt either raises or returns the text of the response. The call is an effect on the
  world outside (\<open>'w\<close>), which it may change.
\<close>

type_synonym 'w provider = "string \<Rightarrow> string \<Rightarrow> 'w \<Rightarrow> (exn + string) \<times> 'w"

record 'w VisionClient =
  primary_model :: ModelProvider
  fallback_model :: ModelProvider
  anthropic_client :: "'w provider option"
  openai_client :: "'w provider option"

definition call_claude ::
  "'w VisionClient \<Rightarrow> string \<Rightarrow> string \<Rightarrow> 'w \<Rightarrow> (exn + string) \<times> 'w" where
  "call_claude self prompt image_path w =
     (case anthropic_client self of
        None \<Rightarrow> (Inl (NoAPIKeyError ''Anthropic API key not configured''), w)
      | Some client \<Rightarrow> client prompt image_path w)"

definition call_openai ::
  "'w VisionClient \<Rightarrow> string \<Rightarrow> string \<Rightarrow> 'w \<Rightarrow> (exn + string) \<times> 'w" where
  "call_openai self prompt image_path w =
     (case openai_client self of
        None \<Rightarrow> (Inl (NoAPIKeyError ''OpenAI API key not configured''), w)
      | Some client \<Rightarrow> client prompt image_path w)"

definition msg_no_fallback :: "exn \<Rightarrow> string" where
  "msg_no_fallback e = ''Primary model failed and no fallback configured: '' @ str e"

definition msg_both_failed :: "exn \<Rightarrow> string" where
  "msg_both_failed e = ''Both primary and fallback models failed. Last error: '' @ str e"

definition msg_no_models :: string where
  "msg_no_models = ''No models available or all attempts failed''"

text \<open>
  The dispatch on the provider that both attempts make: \<open>if ... == CLAUDE\<close>,
  \<open>elif ... == OPENAI\<close>, and no call at all for \<open>NONE\<close>.
\<close>

definition call_model ::
  "'w VisionClient \<Rightarrow> ModelProvider \<Rightarrow> string \<Rightarrow> string \<Rightarrow> 'w
     \<Rightarrow> ((exn + string) \<times> 'w) option" where
  "call_model self model prompt image_path w =
     (case model of
        CLAUDE \<Rightarrow> Some (call_claude self prompt image_path w)
      | OPENAI \<Rightarrow> Some (call_openai self prompt image_path w)
      | NONE \<Rightarrow> None)"

text \<open>The second half of \<open>analyze_image\<close>: the fallback attempt and the final \<open>raise\<close>.\<close>

definition try_fallback ::
  "'w VisionClient \<Rightarrow> string \<Rightarrow> string \<Rightarrow> bool \<Rightarrow> 'w \<Rightarrow> (exn + string) \<times> 'w" where
  "try_fallback self image_path prompt use_fallback w =
     (if use_fallback \<and> fallback_model self \<noteq> NONE
      then (case call_model self (fallback_model self) prompt image_path w of
              None \<Rightarrow> (Inl (VisionClientError msg_no_models), w)
            | Some (Inr response, w') \<Rightarrow> (Inr response, w')
            | Some (Inl e, w') \<Rightarrow> (Inl (VisionClientError (msg_both_failed e)), w'))
      else (Inl (VisionClientError msg_no_models), w))"

definition analyze_image ::
  "'w VisionClient \<Rightarrow> string \<Rightarrow> string \<Rightarrow> bool \<Rightarrow> 'w \<Rightarrow> (exn + string) \<times> 'w" where
  "analyze_image self image_path prompt use_fallback w =
     (case call_model self (primary_model self) prompt image_path w of
        None \<Rightarrow> try_fallback self image_path prompt use_fallback w
      | Some (Inr response, w') \<Rightarrow> (Inr response, w')
      | Some (Inl e, w') \<Rightarrow>
          if \<not> use_fallback \<or> fallback_model self = NONE
          then (Inl (VisionClientError (msg_no_fallback e)), w')
          else try_fallback self image_path prompt use_fallback w')"

text \<open>
  Two providers for the examples: one whose call always raises with the given message, one
  that always answers with the given text.
\<close>

definition failing_provider :: "string \<Rightarrow> 'w provider" where
  "failing_provider msg prompt image_path w = (Inl (OtherException msg), w)"

definition answering_provider :: "string \<Rightarrow> 'w provider" where
  "answering_provider response prompt image_path w = (Inr response, w)"

section \<open>The converter\<close>

record ConverterResult =
  latex_code :: string
  content_type :: ContentType
  raw_response :: string
  is_valid :: bool
  validation_error :: "string option"

text \<open>
  The converter with its vision client and its \<open>validate_output\<close> flag. The texts of the
  prompts play no part in what follows and are fields here: the table \<open>PROMPTS\<close> and
  \<open>GENERAL_PROMPT\<close>.
\<close>

record 'w ImageToLaTeXConverter =
  vision_client :: "'w VisionClient"
  validate_output :: bool
  PROMPTS :: "ContentType \<rightharpoonup> string"
  GENERAL_PROMPT :: string

text \<open>
  What \<open>convert\<close> raises: a \<open>ConversionError\<close> for a rejected image or a failed vision
  model, with the error it wraps; any other exception passes through.
\<close>

datatype convert_error =
    ImageValidationFailed ImageHandlerError
  | VisionModelFailed string
  | Uncaught exn

definition convert ::
  "'w ImageToLaTeXConverter \<Rightarrow> filesystem \<Rightarrow> string \<Rightarrow> ContentType option \<Rightarrow> bool \<Rightarrow> 'w
     \<Rightarrow> (convert_error + ConverterResult) \<times> 'w" where
  "convert self fs image_path ctype auto_detect w =
     (case validate_image fs image_path of
        Inl e \<Rightarrow> (Inl (ImageValidationFailed e), w)
      | Inr ok \<Rightarrow>
          (let prompt =
                 (case ctype of
                    None \<Rightarrow> GENERAL_PROMPT self
                  | Some ct \<Rightarrow>
                      if ct \<noteq> UNKNOWN
                      then (case PROMPTS self ct of
                              None \<Rightarrow> GENERAL_PROMPT self
                            | Some p \<Rightarrow> p)
                      else GENERAL_PROMPT self)
           in case analyze_image (vision_client self) image_path prompt True w of
                (Inl e, w') \<Rightarrow>
                  if is_VisionClientError e
                  then (Inl (VisionModelFailed (''Vision model failed: '' @ str e)), w')
                  else (Inl (Uncaught e), w')
              | (Inr response, w') \<Rightarrow>
                  (let code = extract_latex_code response;
                       detected_type =
                         (case ctype of
                            None \<Rightarrow> detect_content_type code
                          | Some ct \<Rightarrow> if auto_detect then detect_content_type code else ct);
                       v = (if validate_output self then validate_latex code else (True, None))
                   in (Inr \<lparr>latex_code = code, content_type = detected_type,
                             raw_response = response, is_valid = fst v,
                             validation_error = snd v\<rparr>, w'))))"

section \<open>Ordered occurrence\<close>

text \<open>
  The text behind the leftmost occurrence of a pattern, and the test that a list of
  patterns occurs in a text in the given order, each behind the one before.
\<close>

fun after_first :: "string \<Rightarrow> string \<Rightarrow> string option" where
  "after_first [] p = (if p = [] then Some [] else None)"
| "after_first (x # xs) p =
     (if prefix p (x # xs) then Some (drop (length p) (x # xs)) else after_first xs p)"

fun contains_in_order :: "string \<Rightarrow> string list \<Rightarrow> bool" where
  "contains_in_order s [] = True"
| "contains_in_order s (p # ps) =
     (case after_first s p of None \<Rightarrow> False | Some rest \<Rightarrow> contains_in_order rest ps)"

section \<open>Properties of the validator\<close>


lemma check_closed_subset:
  "set begins \<subseteq> set ends \<Longrightarrow> check_closed begins ends = (True, None)"
  by (induction begins) simp_all

lemma check_closed_missing:
  "\<not> set begins \<subseteq> set ends \<Longrightarrow>
     \<exists>env. env \<in> set begins \<and> env \<notin> set ends
       \<and> check_closed begins ends = (False, Some (msg_unclosed env))"
proof (induction begins)
  case Nil
  then show ?case by simp
next
  case (Cons b bs)
  show ?case
  proof (cases "b \<in> set ends")
    case True
    with Cons.prems have "\<not> set bs \<subseteq> set ends" by simp
    from Cons.IH [OF this] obtain env where
      "env \<in> set bs" "env \<notin> set ends" "check_closed bs ends = (False, Some (msg_unclosed env))"
      by blast
    with True show ?thesis by (intro exI [of _ env]) simp
  next
    case False
    then show ?thesis by (intro exI [of _ b]) simp
  qed
qed

lemma msg_unclosed_nonempty: "msg_unclosed env \<noteq> []"
  by (simp add: msg_unclosed_def)

lemma check_closed_verdict:
  "check_closed begins ends = (True, None)
   \<or> (\<exists>m. m \<noteq> [] \<and> check_closed begins ends = (False, Some m))"
proof (cases "set begins \<subseteq> set ends")
  case True
  then show ?thesis by (simp add: check_closed_subset)
next
  case False
  from check_closed_missing [OF this] obtain env where
    "check_closed begins ends = (False, Some (msg_unclosed env))" by blast
  then show ?thesis using msg_unclosed_nonempty by blast
qed

lemma validate_latex_verdict:
  "validate_latex s = (True, None)
   \<or> (\<exists>m. m \<noteq> [] \<and> validate_latex s = (False, Some m))"
proof -
  have b: "msg_braces \<noteq> []" "msg_brackets \<noteq> []" "msg_environments \<noteq> []"
    by (simp_all add: msg_braces_def msg_brackets_def msg_environments_def)
  show ?thesis
    unfolding validate_latex_def Let_def
    using b check_closed_verdict by simp
qed


lemmas validator_eval =
  validate_latex_def count_str_def match_env_def is_word_char_def

text \<open>
  C4. The validator accepts environments that are balanced in number but wrongly nested:
  the text \<open>\begin{a}\begin{b}\end{a}\end{b}\<close> is valid with no error, and so is every text
  with balanced braces and brackets in which each name is opened as often as it is closed,
  whatever the order of the markers.
\<close>

theorem validate_latex_accepts_count_balanced:
  "validate_latex (BS # ''begin{a}'' @ BS # ''begin{b}'' @ BS # ''end{a}'' @ BS # ''end{b}'')
     = (True, None)
   \<and> (\<forall>s. count_str s CHR ''{'' = count_str s CHR ''}''
          \<and> count_str s CHR ''['' = count_str s CHR '']''
          \<and> mset (findall_env (BS # ''begin'') s) = mset (findall_env (BS # ''end'') s)
        \<longrightarrow> validate_latex s = (True, None))"
proof (intro conjI allI impI)
  show "validate_latex (BS # ''begin{a}'' @ BS # ''begin{b}'' @ BS # ''end{a}'' @ BS # ''end{b}'')
     = (True, None)"
    by (simp add: validator_eval)
next
  fix s
  assume a: "count_str s CHR ''{'' = count_str s CHR ''}''
          \<and> count_str s CHR ''['' = count_str s CHR '']''
          \<and> mset (findall_env (BS # ''begin'') s) = mset (findall_env (BS # ''end'') s)"
  let ?b = "findall_env (BS # ''begin'') s" and ?e = "findall_env (BS # ''end'') s"
  from a have m: "mset ?b = mset ?e" by simp
  then have l: "length ?b = length ?e" by (rule mset_eq_length)
  from m have "set ?b = set ?e" by (rule mset_eq_setD)
  then have "check_closed ?b ?e = (True, None)" by (simp add: check_closed_subset)
  with a l show "validate_latex s = (True, None)"
    by (simp add: validate_latex_def)
qed

theorem validate_latex_accepts_count_balanced_witness:
  "validate_latex (BS # ''begin{b}'' @ BS # ''end{a}'' @ BS # ''begin{a}'' @ BS # ''end{b}'')
     = (True, None)"
proof -
  let ?s = "BS # ''begin{b}'' @ BS # ''end{a}'' @ BS # ''begin{a}'' @ BS # ''end{b}''"
  have "count_str ?s CHR ''{'' = count_str ?s CHR ''}''
          \<and> count_str ?s CHR ''['' = count_str ?s CHR '']''
          \<and> mset (findall_env (BS # ''begin'') ?s) = mset (findall_env (BS # ''end'') ?s)"
    by (simp add: count_str_def match_env_def is_word_char_def)
  with validate_latex_accepts_count_balanced show ?thesis by blast
qed

text \<open>
  C6. The validator runs its four checks in order and stops at the first that fails, each
  with a message of its own: braces, brackets, the number of environments, an environment
  that is opened but not closed. \<open>\frac{a}{b}\<close> is valid, \<open>\frac{a}{b\<close> is invalid with the
  message about braces, and \<open>\begin{equation} E=mc^2\<close> is invalid with a message about
  environments.
\<close>

theorem validate_latex_checks_in_order:
  "validate_latex (BS # ''frac{a}{b}'') = (True, None)
   \<and> validate_latex (BS # ''frac{a}{b'')
       = (False, Some ''Unbalanced braces: {} count mismatch'')
   \<and> validate_latex (BS # ''begin{equation} E=mc^2'')
       = (False, Some (''Unbalanced environments: '' @ BS # ''begin{} and '' @ BS
                        # ''end{} count mismatch''))
   \<and> (\<forall>s. count_str s CHR ''{'' \<noteq> count_str s CHR ''}''
        \<longrightarrow> validate_latex s = (False, Some msg_braces))
   \<and> (\<forall>s. count_str s CHR ''{'' = count_str s CHR ''}''
          \<and> count_str s CHR ''['' \<noteq> count_str s CHR '']''
        \<longrightarrow> validate_latex s = (False, Some msg_brackets))
   \<and> (\<forall>s. count_str s CHR ''{'' = count_str s CHR ''}''
          \<and> count_str s CHR ''['' = count_str s CHR '']''
          \<and> length (findall_env (BS # ''begin'') s) \<noteq> length (findall_env (BS # ''end'') s)
        \<longrightarrow> validate_latex s = (False, Some msg_environments))
   \<and> (\<forall>s. count_str s CHR ''{'' = count_str s CHR ''}''
          \<and> count_str s CHR ''['' = count_str s CHR '']''
          \<and> length (findall_env (BS # ''begin'') s) = length (findall_env (BS # ''end'') s)
          \<and> \<not> set (findall_env (BS # ''begin'') s) \<subseteq> set (findall_env (BS # ''end'') s)
        \<longrightarrow> (\<exists>env. env \<in> set (findall_env (BS # ''begin'') s)
                  \<and> env \<notin> set (findall_env (BS # ''end'') s)
                  \<and> validate_latex s = (False, Some (msg_unclosed env))))
   \<and> (\<forall>s. count_str s CHR ''{'' = count_str s CHR ''}''
          \<and> count_str s CHR ''['' = count_str s CHR '']''
          \<and> length (findall_env (BS # ''begin'') s) = length (findall_env (BS # ''end'') s)
          \<and> set (findall_env (BS # ''begin'') s) \<subseteq> set (findall_env (BS # ''end'') s)
        \<longrightarrow> validate_latex s = (True, None))
   \<and> distinct [msg_braces, msg_brackets, msg_environments]
   \<and> (\<forall>env. msg_unclosed env \<notin> {msg_braces, msg_brackets, msg_environments})"
proof (intro conjI allI impI)
  show "validate_latex (BS # ''frac{a}{b}'') = (True, None)"
    by (simp add: validator_eval)
  show "validate_latex (BS # ''frac{a}{b'')
       = (False, Some ''Unbalanced braces: {} count mismatch'')"
    by (simp add: validator_eval msg_braces_def)
  show "validate_latex (BS # ''begin{equation} E=mc^2'')
       = (False, Some (''Unbalanced environments: '' @ BS # ''begin{} and '' @ BS
                        # ''end{} count mismatch''))"
    by (simp add: validator_eval msg_environments_def)
  show "distinct [msg_braces, msg_brackets, msg_environments]"
    by (simp add: msg_braces_def msg_brackets_def msg_environments_def)
  show "msg_unclosed env \<notin> {msg_braces, msg_brackets, msg_environments}" for env
    by (simp add: msg_unclosed_def msg_braces_def msg_brackets_def msg_environments_def)
next
  fix s
  assume "count_str s CHR ''{'' \<noteq> count_str s CHR ''}''"
  then show "validate_latex s = (False, Some msg_braces)"
    by (simp add: validate_latex_def)
next
  fix s
  assume "count_str s CHR ''{'' = count_str s CHR ''}''
          \<and> count_str s CHR ''['' \<noteq> count_str s CHR '']''"
  then show "validate_latex s = (False, Some msg_brackets)"
    by (simp add: validate_latex_def)
next
  fix s
  assume "count_str s CHR ''{'' = count_str s CHR ''}''
          \<and> count_str s CHR ''['' = count_str s CHR '']''
          \<and> length (findall_env (BS # ''begin'') s) \<noteq> length (findall_env (BS # ''end'') s)"
  then show "validate_latex s = (False, Some msg_environments)"
    by (simp add: validate_latex_def)
next
  fix s
  assume a: "count_str s CHR ''{'' = count_str s CHR ''}''
          \<and> count_str s CHR ''['' = count_str s CHR '']''
          \<and> length (findall_env (BS # ''begin'') s) = length (findall_env (BS # ''end'') s)
          \<and> \<not> set (findall_env (BS # ''begin'') s) \<subseteq> set (findall_env (BS # ''end'') s)"
  then have v: "validate_latex s
      = check_closed (findall_env (BS # ''begin'') s) (findall_env (BS # ''end'') s)"
    by (simp add: validate_latex_def)
  from a have "\<not> set (findall_env (BS # ''begin'') s) \<subseteq> set (findall_env (BS # ''end'') s)"
    by simp
  from check_closed_missing [OF this] v
  show "\<exists>env. env \<in> set (findall_env (BS # ''begin'') s)
                  \<and> env \<notin> set (findall_env (BS # ''end'') s)
                  \<and> validate_latex s = (False, Some (msg_unclosed env))"
    by simp
next
  fix s
  assume a: "count_str s CHR ''{'' = count_str s CHR ''}''
          \<and> count_str s CHR ''['' = count_str s CHR '']''
          \<and> length (findall_env (BS # ''begin'') s) = length (findall_env (BS # ''end'') s)
          \<and> set (findall_env (BS # ''begin'') s) \<subseteq> set (findall_env (BS # ''end'') s)"
  then show "validate_latex s = (True, None)"
    by (simp add: validate_latex_def check_closed_subset)
qed


theorem validate_latex_checks_in_order_witness:
  "validate_latex (''{['' @ BS # ''begin{a}'') = (False, Some msg_braces)
   \<and> validate_latex (''['' @ BS # ''begin{a}'') = (False, Some msg_brackets)
   \<and> validate_latex (BS # ''begin{a}'') = (False, Some msg_environments)
   \<and> validate_latex (BS # ''begin{a}'' @ BS # ''begin{b}'' @ BS # ''end{a}'' @ BS # ''end{a}'')
       = (False, Some (msg_unclosed ''b''))
   \<and> validate_latex (BS # ''begin{a}'' @ BS # ''end{a}'') = (True, None)"
proof -
  note t = validate_latex_checks_in_order
  note c4 = t [THEN conjunct2, THEN conjunct2, THEN conjunct2, THEN conjunct1, rule_format]
  note c5 = t [THEN conjunct2, THEN conjunct2, THEN conjunct2, THEN conjunct2, THEN conjunct1,
               rule_format]
  note c6 = t [THEN conjunct2, THEN conjunct2, THEN conjunct2, THEN conjunct2, THEN conjunct2,
               THEN conjunct1, rule_format]
  note c7 = t [THEN conjunct2, THEN conjunct2, THEN conjunct2, THEN conjunct2, THEN conjunct2,
               THEN conjunct2, THEN conjunct1, rule_format]
  note c8 = t [THEN conjunct2, THEN conjunct2, THEN conjunct2, THEN conjunct2, THEN conjunct2,
               THEN conjunct2, THEN conjunct2, THEN conjunct1, rule_format]
  note ev = count_str_def match_env_def is_word_char_def
  have r1: "validate_latex (''{['' @ BS # ''begin{a}'') = (False, Some msg_braces)"
    by (rule c4) (simp add: ev)
  have r2: "validate_latex (''['' @ BS # ''begin{a}'') = (False, Some msg_brackets)"
    by (rule c5) (simp add: ev)
  have r3: "validate_latex (BS # ''begin{a}'') = (False, Some msg_environments)"
    by (rule c6) (simp add: ev)
  let ?s = "BS # ''begin{a}'' @ BS # ''begin{b}'' @ BS # ''end{a}'' @ BS # ''end{a}''"
  have b: "findall_env (BS # ''begin'') ?s = [''a'', ''b'']"
    and e: "findall_env (BS # ''end'') ?s = [''a'', ''a'']"
    by (simp_all add: ev)
  have "\<exists>env. env \<in> set (findall_env (BS # ''begin'') ?s)
             \<and> env \<notin> set (findall_env (BS # ''end'') ?s)
             \<and> validate_latex ?s = (False, Some (msg_unclosed env))"
    by (rule c7) (simp add: b e, simp add: ev)
  then have r4: "validate_latex ?s = (False, Some (msg_unclosed ''b''))"
    unfolding b e by auto
  have r5: "validate_latex (BS # ''begin{a}'' @ BS # ''end{a}'') = (True, None)"
    by (rule c8) (simp add: ev)
  from r1 r2 r3 r4 r5 show ?thesis by simp
qed

lemma match_env_name:
  "match_env kw s = Some (name, rest) \<Longrightarrow> name \<noteq> [] \<and> list_all is_word_char name"
proof -
  assume m: "match_env kw s = Some (name, rest)"
  then have "name = takeWhile is_word_char (drop (length kw + 1) s)" "name \<noteq> []"
    by (auto simp: match_env_def Let_def split: if_splits)
  then show ?thesis
    by (auto simp: list_all_iff dest: set_takeWhileD)
qed

lemma findall_env_names:
  "name \<in> set (findall_env kw s) \<Longrightarrow> name \<noteq> [] \<and> list_all is_word_char name"
proof (induction kw s rule: findall_env.induct)
  case (1 kw)
  then show ?case by simp
next
  case (2 kw x xs)
  show ?case
  proof (cases "match_env kw (x # xs)")
    case None
    with 2 show ?thesis by simp
  next
    case (Some p)
    obtain n rest where p: "p = (n, rest)" by (cases p)
    from Some p 2 show ?thesis
      by (auto dest: match_env_name)
  qed
qed

lemma match_env_nonword:
  assumes "list_all is_word_char w" "\<not> is_word_char c" "c \<noteq> CHR ''}''"
  shows "match_env kw (kw @ ''{'' @ w @ c # rest) = None"
proof -
  have d: "drop (length kw + 1) (kw @ ''{'' @ w @ c # rest) = w @ c # rest" by simp
  from assms have t: "dropWhile is_word_char (w @ c # rest) = c # rest"
    by (simp add: dropWhile_append2 list_all_iff)
  from assms(3) show ?thesis
    unfolding match_env_def Let_def d t by simp
qed

text \<open>
  C10. The environment checks count only names made of word characters. Every name that
  either scan collects is a non-empty string of word characters; a marker whose name runs
  into a character that is neither a word character nor the closing brace, such as the star
  of \<open>align*\<close>, is not matched. So \<open>\begin{align*} x = y\<close> has no opened and no closed
  environment for the validator, and it is reported valid.
\<close>

theorem validate_latex_ignores_starred_environment:
  "(\<forall>kw s name. name \<in> set (findall_env kw s)
        \<longrightarrow> name \<noteq> [] \<and> list_all is_word_char name)
   \<and> (\<forall>kw w c rest. list_all is_word_char w \<and> \<not> is_word_char c \<and> c \<noteq> CHR ''}''
        \<longrightarrow> match_env kw (kw @ ''{'' @ w @ c # rest) = None)
   \<and> findall_env (BS # ''begin'') (BS # ''begin{align*} x = y'') = []
   \<and> findall_env (BS # ''end'') (BS # ''begin{align*} x = y'') = []
   \<and> validate_latex (BS # ''begin{align*} x = y'') = (True, None)"
proof (intro conjI allI impI)
  fix kw s name
  assume "name \<in> set (findall_env kw s)"
  from findall_env_names [OF this]
  show "name \<noteq> []" and "list_all is_word_char name" by simp_all
next
  fix kw w c rest
  assume "list_all is_word_char w \<and> \<not> is_word_char c \<and> c \<noteq> CHR ''}''"
  then show "match_env kw (kw @ ''{'' @ w @ c # rest) = None"
    by (intro match_env_nonword) simp_all
next
  show "findall_env (BS # ''begin'') (BS # ''begin{align*} x = y'') = []"
    by (simp add: match_env_def is_word_char_def)
  show "findall_env (BS # ''end'') (BS # ''begin{align*} x = y'') = []"
    by (simp add: match_env_def is_word_char_def)
  show "validate_latex (BS # ''begin{align*} x = y'') = (True, None)"
    by (simp add: validator_eval)
qed

theorem validate_latex_ignores_starred_environment_witness:
  "findall_env (BS # ''begin'') (BS # ''begin{align}'' @ BS # ''begin{align*}'') = [''align'']
   \<and> list_all is_word_char ''align''
   \<and> match_env (BS # ''begin'') (BS # ''begin{align*}'') = None"
proof -
  note t = validate_latex_ignores_starred_environment
  let ?s = "BS # ''begin{align}'' @ BS # ''begin{align*}''"
  have f: "findall_env (BS # ''begin'') ?s = [''align'']"
    by (simp add: match_env_def is_word_char_def)
  then have "''align'' \<in> set (findall_env (BS # ''begin'') ?s)" by simp
  with t have a: "list_all is_word_char ''align''" by blast
  have "list_all is_word_char ''align'' \<and> \<not> is_word_char CHR ''*'' \<and> CHR ''*'' \<noteq> CHR ''}''"
    by (simp add: is_word_char_def)
  with t have "match_env (BS # ''begin'') ((BS # ''begin'') @ ''{'' @ ''align'' @ CHR ''*'' # ''}'') = None"
    by blast
  then have m: "match_env (BS # ''begin'') (BS # ''begin{align*}'') = None" by simp
  from f a m show ?thesis by simp
qed

section \<open>Properties of the classifier\<close>

lemma contains_map: "contains s p \<Longrightarrow> contains (map f s) (map f p)"
proof (induction s)
  case Nil
  then show ?case by simp
next
  case (Cons x xs)
  from Cons.prems have "prefix p (x # xs) \<or> contains xs p" by simp
  then show ?case
  proof
    assume "prefix p (x # xs)"
    then have "prefix (map f p) (map f (x # xs))" by (rule map_mono_prefix)
    then show ?thesis by simp
  next
    assume "contains xs p"
    then have "contains (map f xs) (map f p)" by (rule Cons.IH)
    then show ?thesis by simp
  qed
qed

lemma contains_lower: "contains s p \<Longrightarrow> contains (lower s) (lower p)"
  unfolding lower_def by (rule contains_map)

lemma lower_documentclass: "lower (BS # ''documentclass'') = BS # ''documentclass''"
  by (simp add: lower_def lower_char_def)

text \<open>
  C5. The classifier applies a fixed precedence and the first match wins: the document
  markers are tested first, then the table markers, then the diagram markers, then the
  equation markers, and a text with none of them is unknown. The markers are looked for
  in the lower-cased text. So every text that contains both \<open>\documentclass\<close> and
  \<open>\begin{tabular}\<close> is classified as a document, never as a table.
\<close>

theorem detect_content_type_precedence:
  "(\<forall>s. contains s (BS # ''documentclass'') \<and> contains s (BS # ''begin{tabular}'')
      \<longrightarrow> detect_content_type s = DOCUMENT \<and> detect_content_type s \<noteq> TABLE)
   \<and> (\<forall>s. contains (lower s) (BS # ''documentclass'')
          \<or> contains (lower s) (BS # ''maketitle'')
      \<longrightarrow> detect_content_type s = DOCUMENT)
   \<and> (\<forall>s. \<not> contains (lower s) (BS # ''documentclass'')
          \<and> \<not> contains (lower s) (BS # ''maketitle'')
          \<and> (contains (lower s) (BS # ''begin{table'')
               \<or> contains (lower s) (BS # ''begin{tabular''))
      \<longrightarrow> detect_content_type s = TABLE)
   \<and> (\<forall>s. \<not> contains (lower s) (BS # ''documentclass'')
          \<and> \<not> contains (lower s) (BS # ''maketitle'')
          \<and> \<not> contains (lower s) (BS # ''begin{table'')
          \<and> \<not> contains (lower s) (BS # ''begin{tabular'')
          \<and> (contains (lower s) (BS # ''begin{tikz'')
               \<or> contains (lower s) (BS # ''begin{figure'')
               \<or> contains (lower s) (BS # ''includegraphics''))
      \<longrightarrow> detect_content_type s = DIAGRAM)
   \<and> (\<forall>s. \<not> contains (lower s) (BS # ''documentclass'')
          \<and> \<not> contains (lower s) (BS # ''maketitle'')
          \<and> \<not> contains (lower s) (BS # ''begin{table'')
          \<and> \<not> contains (lower s) (BS # ''begin{tabular'')
          \<and> \<not> contains (lower s) (BS # ''begin{tikz'')
          \<and> \<not> contains (lower s) (BS # ''begin{figure'')
          \<and> \<not> contains (lower s) (BS # ''includegraphics'')
          \<and> (contains (lower s) (BS # ''begin{equation'')
               \<or> contains (lower s) (BS # ''begin{align'')
               \<or> contains (lower s) [BS, CHR ''['']
               \<or> contains (lower s) ''$''
               \<or> contains (lower s) (BS # ''frac'')
               \<or> contains (lower s) (BS # ''int'')
               \<or> contains (lower s) (BS # ''sum'')
               \<or> contains (lower s) (BS # ''alpha''))
      \<longrightarrow> detect_content_type s = EQUATION)
   \<and> (\<forall>s. \<not> contains (lower s) (BS # ''documentclass'')
          \<and> \<not> contains (lower s) (BS # ''maketitle'')
          \<and> \<not> contains (lower s) (BS # ''begin{table'')
          \<and> \<not> contains (lower s) (BS # ''begin{tabular'')
          \<and> \<not> contains (lower s) (BS # ''begin{tikz'')
          \<and> \<not> contains (lower s) (BS # ''begin{figure'')
          \<and> \<not> contains (lower s) (BS # ''includegraphics'')
          \<and> \<not> contains (lower s) (BS # ''begin{equation'')
          \<and> \<not> contains (lower s) (BS # ''begin{align'')
          \<and> \<not> contains (lower s) [BS, CHR ''['']
          \<and> \<not> contains (lower s) ''$''
          \<and> \<not> contains (lower s) (BS # ''frac'')
          \<and> \<not> contains (lower s) (BS # ''int'')
          \<and> \<not> contains (lower s) (BS # ''sum'')
          \<and> \<not> contains (lower s) (BS # ''alpha'')
      \<longrightarrow> detect_content_type s = UNKNOWN)"
proof (intro conjI allI impI)
  fix s
  assume a: "contains s (BS # ''documentclass'') \<and> contains s (BS # ''begin{tabular}'')"
  then have "contains (lower s) (lower (BS # ''documentclass''))"
    by (simp add: contains_lower)
  then have "contains (lower s) (BS # ''documentclass'')"
    by (simp only: lower_documentclass)
  then show d: "detect_content_type s = DOCUMENT"
    by (simp add: detect_content_type_def)
  then show "detect_content_type s \<noteq> TABLE" by simp
next
  fix s
  assume "contains (lower s) (BS # ''documentclass'')
          \<or> contains (lower s) (BS # ''maketitle'')"
  then show "detect_content_type s = DOCUMENT"
    unfolding detect_content_type_def Let_def by simp
next
  fix s
  assume "\<not> contains (lower s) (BS # ''documentclass'')
          \<and> \<not> contains (lower s) (BS # ''maketitle'')
          \<and> (contains (lower s) (BS # ''begin{table'')
               \<or> contains (lower s) (BS # ''begin{tabular''))"
  then show "detect_content_type s = TABLE"
    unfolding detect_content_type_def Let_def by simp
next
  fix s
  assume "\<not> contains (lower s) (BS # ''documentclass'')
          \<and> \<not> contains (lower s) (BS # ''maketitle'')
          \<and> \<not> contains (lower s) (BS # ''begin{table'')
          \<and> \<not> contains (lower s) (BS # ''begin{tabular'')
          \<and> (contains (lower s) (BS # ''begin{tikz'')
               \<or> contains (lower s) (BS # ''begin{figure'')
               \<or> contains (lower s) (BS # ''includegraphics''))"
  then show "detect_content_type s = DIAGRAM"
    unfolding detect_content_type_def Let_def by simp
next
  fix s
  assume "\<not> contains (lower s) (BS # ''documentclass'')
          \<and> \<not> contains (lower s) (BS # ''maketitle'')
          \<and> \<not> contains (lower s) (BS # ''begin{table'')
          \<and> \<not> contains (lower s) (BS # ''begin{tabular'')
          \<and> \<not> contains (lower s) (BS # ''begin{tikz'')
          \<and> \<not> contains (lower s) (BS # ''begin{figure'')
          \<and> \<not> contains (lower s) (BS # ''includegraphics'')
          \<and> (contains (lower s) (BS # ''begin{equation'')
               \<or> contains (lower s) (BS # ''begin{align'')
               \<or> contains (lower s) [BS, CHR ''['']
               \<or> contains (lower s) ''$''
               \<or> contains (lower s) (BS # ''frac'')
               \<or> contains (lower s) (BS # ''int'')
               \<or> contains (lower s) (BS # ''sum'')
               \<or> contains (lower s) (BS # ''alpha''))"
  then show "detect_content_type s = EQUATION"
    unfolding detect_content_type_def Let_def by simp
next
  fix s
  assume "\<not> contains (lower s) (BS # ''documentclass'')
          \<and> \<not> contains (lower s) (BS # ''maketitle'')
          \<and> \<not> contains (lower s) (BS # ''begin{table'')
          \<and> \<not> contains (lower s) (BS # ''begin{tabular'')
          \<and> \<not> contains (lower s) (BS # ''begin{tikz'')
          \<and> \<not> contains (lower s) (BS # ''begin{figure'')
          \<and> \<not> contains (lower s) (BS # ''includegraphics'')
          \<and> \<not> contains (lower s) (BS # ''begin{equation'')
          \<and> \<not> contains (lower s) (BS # ''begin{align'')
          \<and> \<not> contains (lower s) [BS, CHR ''['']
          \<and> \<not> contains (lower s) ''$''
          \<and> \<not> contains (lower s) (BS # ''frac'')
          \<and> \<not> contains (lower s) (BS # ''int'')
          \<and> \<not> contains (lower s) (BS # ''sum'')
          \<and> \<not> contains (lower s) (BS # ''alpha'')"
  then show "detect_content_type s = UNKNOWN"
    unfolding detect_content_type_def Let_def by simp
qed

theorem detect_content_type_precedence_witness:
  "detect_content_type (BS # ''documentclass{article}'' @ [NL] @ BS # ''begin{tabular}{c}'')
     = DOCUMENT
   \<and> detect_content_type (BS # ''maketitle $x$'') = DOCUMENT
   \<and> detect_content_type (BS # ''begin{tabular}{c}'' @ BS # ''includegraphics{x} $y$'') = TABLE
   \<and> detect_content_type (BS # ''includegraphics{x} $y$'') = DIAGRAM
   \<and> detect_content_type ''$y$'' = EQUATION
   \<and> detect_content_type ''plain text'' = UNKNOWN"
proof -
  note t = detect_content_type_precedence
  note c1 = t [THEN conjunct1, rule_format]
  note c2 = t [THEN conjunct2, THEN conjunct1, rule_format]
  note c3 = t [THEN conjunct2, THEN conjunct2, THEN conjunct1, rule_format]
  note c4 = t [THEN conjunct2, THEN conjunct2, THEN conjunct2, THEN conjunct1, rule_format]
  note c5 = t [THEN conjunct2, THEN conjunct2, THEN conjunct2, THEN conjunct2, THEN conjunct1,
               rule_format]
  note c6 = t [THEN conjunct2, THEN conjunct2, THEN conjunct2, THEN conjunct2, THEN conjunct2,
               rule_format]
  note ev = lower_def lower_char_def
  let ?s = "BS # ''documentclass{article}'' @ [NL] @ BS # ''begin{tabular}{c}''"
  have "contains ?s (BS # ''documentclass'') \<and> contains ?s (BS # ''begin{tabular}'')"
    by simp
  from c1 [OF this] have r1: "detect_content_type ?s = DOCUMENT" by simp
  have r2: "detect_content_type (BS # ''maketitle $x$'') = DOCUMENT"
    by (rule c2) (simp add: ev)
  have r3: "detect_content_type (BS # ''begin{tabular}{c}'' @ BS # ''includegraphics{x} $y$'')
      = TABLE"
    by (rule c3) (simp add: ev)
  have r4: "detect_content_type (BS # ''includegraphics{x} $y$'') = DIAGRAM"
    by (rule c4) (simp add: ev)
  have r5: "detect_content_type ''$y$'' = EQUATION"
    by (rule c5) (simp add: ev)
  have r6: "detect_content_type ''plain text'' = UNKNOWN"
    by (rule c6) (simp add: ev)
  from r1 r2 r3 r4 r5 r6 show ?thesis by simp
qed

lemma detect_case_insensitive:
  "detect_content_type (BS # ''DocumentClass{article}'' @ BS # ''begin{tabular}'') = DOCUMENT"
  by code_simp

section \<open>Properties of the document builder\<close>

lemma create_full_document_no_title:
  "\<not> truthy title \<Longrightarrow>
     create_full_document content title author cls
       = BS # ''documentclass{'' @ cls @ ''}'' @ [NL, NL]
         @ BS # ''usepackage{amsmath}'' @ [NL]
         @ BS # ''usepackage{amssymb}'' @ [NL]
         @ BS # ''usepackage{amsfonts}'' @ [NL]
         @ BS # ''usepackage{graphicx}'' @ [NL]
         @ BS # ''usepackage{booktabs}'' @ [NL]
         @ BS # ''usepackage{tikz}'' @ [NL]
         @ [NL] @ BS # ''begin{document}'' @ [NL, NL]
         @ content @ [NL, NL]
         @ BS # ''end{document}'' @ [NL]"
  by (simp add: create_full_document_def DOCUMENT_PACKAGES_def)

text \<open>
  C8. \<open>create_full_document("Body", title="T", author="A")\<close> is the document class line,
  the six package lines (amsmath, amssymb, amsfonts, graphicx, booktabs, tikz),
  \<open>\begin{document}\<close>, \<open>\title{T}\<close>, \<open>\author{A}\<close>, \<open>\maketitle\<close>, the body and
  \<open>\end{document}\<close>, in this order. Without a title (none, or an empty one) the document
  is the preamble, the content and the end alone, whatever the content and the author:
  no \<open>\author\<close> and no \<open>\maketitle\<close> line is emitted.
\<close>

theorem create_full_document_layout:
  "create_full_document ''Body'' (Some ''T'') (Some ''A'') ''article''
     = BS # ''documentclass{article}'' @ [NL, NL]
       @ BS # ''usepackage{amsmath}'' @ [NL]
       @ BS # ''usepackage{amssymb}'' @ [NL]
       @ BS # ''usepackage{amsfonts}'' @ [NL]
       @ BS # ''usepackage{graphicx}'' @ [NL]
       @ BS # ''usepackage{booktabs}'' @ [NL]
       @ BS # ''usepackage{tikz}'' @ [NL]
       @ [NL] @ BS # ''begin{document}'' @ [NL, NL]
       @ BS # ''title{T}'' @ [NL]
       @ BS # ''author{A}'' @ [NL]
       @ BS # ''maketitle'' @ [NL, NL]
       @ ''Body'' @ [NL, NL]
       @ BS # ''end{document}'' @ [NL]
   \<and> contains_in_order (create_full_document ''Body'' (Some ''T'') (Some ''A'') ''article'')
       [BS # ''documentclass'',
        BS # ''usepackage{amsmath}'', BS # ''usepackage{amssymb}'',
        BS # ''usepackage{amsfonts}'', BS # ''usepackage{graphicx}'',
        BS # ''usepackage{booktabs}'', BS # ''usepackage{tikz}'',
        BS # ''begin{document}'', BS # ''title{T}'', BS # ''author{A}'', BS # ''maketitle'',
        ''Body'', BS # ''end{document}'']
   \<and> (\<forall>content title author cls. \<not> truthy title \<longrightarrow>
        create_full_document content title author cls
          = BS # ''documentclass{'' @ cls @ ''}'' @ [NL, NL]
            @ BS # ''usepackage{amsmath}'' @ [NL]
            @ BS # ''usepackage{amssymb}'' @ [NL]
            @ BS # ''usepackage{amsfonts}'' @ [NL]
            @ BS # ''usepackage{graphicx}'' @ [NL]
            @ BS # ''usepackage{booktabs}'' @ [NL]
            @ BS # ''usepackage{tikz}'' @ [NL]
            @ [NL] @ BS # ''begin{document}'' @ [NL, NL]
            @ content @ [NL, NL]
            @ BS # ''end{document}'' @ [NL])
   \<and> (\<forall>title author. \<not> truthy title \<longrightarrow>
        \<not> contains (create_full_document ''Body'' title author ''article'') (BS # ''author'')
        \<and> \<not> contains (create_full_document ''Body'' title author ''article'')
              (BS # ''maketitle''))"
proof (intro conjI allI impI)
  show e: "create_full_document ''Body'' (Some ''T'') (Some ''A'') ''article''
     = BS # ''documentclass{article}'' @ [NL, NL]
       @ BS # ''usepackage{amsmath}'' @ [NL]
       @ BS # ''usepackage{amssymb}'' @ [NL]
       @ BS # ''usepackage{amsfonts}'' @ [NL]
       @ BS # ''usepackage{graphicx}'' @ [NL]
       @ BS # ''usepackage{booktabs}'' @ [NL]
       @ BS # ''usepackage{tikz}'' @ [NL]
       @ [NL] @ BS # ''begin{document}'' @ [NL, NL]
       @ BS # ''title{T}'' @ [NL]
       @ BS # ''author{A}'' @ [NL]
       @ BS # ''maketitle'' @ [NL, NL]
       @ ''Body'' @ [NL, NL]
       @ BS # ''end{document}'' @ [NL]"
    by (simp add: create_full_document_def DOCUMENT_PACKAGES_def)
  show "contains_in_order (create_full_document ''Body'' (Some ''T'') (Some ''A'') ''article'')
       [BS # ''documentclass'',
        BS # ''usepackage{amsmath}'', BS # ''usepackage{amssymb}'',
        BS # ''usepackage{amsfonts}'', BS # ''usepackage{graphicx}'',
        BS # ''usepackage{booktabs}'', BS # ''usepackage{tikz}'',
        BS # ''begin{document}'', BS # ''title{T}'', BS # ''author{A}'', BS # ''maketitle'',
        ''Body'', BS # ''end{document}'']"
    unfolding e by simp
next
  fix content title author cls
  assume "\<not> truthy title"
  then show "create_full_document content title author cls
          = BS # ''documentclass{'' @ cls @ ''}'' @ [NL, NL]
            @ BS # ''usepackage{amsmath}'' @ [NL]
            @ BS # ''usepackage{amssymb}'' @ [NL]
            @ BS # ''usepackage{amsfonts}'' @ [NL]
            @ BS # ''usepackage{graphicx}'' @ [NL]
            @ BS # ''usepackage{booktabs}'' @ [NL]
            @ BS # ''usepackage{tikz}'' @ [NL]
            @ [NL] @ BS # ''begin{document}'' @ [NL, NL]
            @ content @ [NL, NL]
            @ BS # ''end{document}'' @ [NL]"
    by (rule create_full_document_no_title)
next
  fix title author
  assume n: "\<not> truthy title"
  show "\<not> contains (create_full_document ''Body'' title author ''article'') (BS # ''author'')"
    unfolding create_full_document_no_title [OF n] by simp
  show "\<not> contains (create_full_document ''Body'' title author ''article'') (BS # ''maketitle'')"
    unfolding create_full_document_no_title [OF n] by simp
qed

theorem create_full_document_layout_witness:
  "\<not> contains (create_full_document ''Body'' (Some []) (Some ''A'') ''article'') (BS # ''author'')
   \<and> \<not> contains (create_full_document ''Body'' None (Some ''A'') ''article'') (BS # ''maketitle'')
   \<and> create_full_document ''Body'' None (Some ''A'') ''article''
       = create_full_document ''Body'' None None ''article''"
proof -
  note t = create_full_document_layout
  have a: "\<not> truthy (Some [])" and b: "\<not> truthy None" by simp_all
  from t a have r1: "\<not> contains (create_full_document ''Body'' (Some []) (Some ''A'') ''article'')
      (BS # ''author'')" by blast
  from t b have r2: "\<not> contains (create_full_document ''Body'' None (Some ''A'') ''article'')
      (BS # ''maketitle'')" by blast
  note g = t [THEN conjunct2, THEN conjunct2, THEN conjunct1, rule_format]
  have "create_full_document ''Body'' None (Some ''A'') ''article''
       = create_full_document ''Body'' None None ''article''"
    by (simp only: g [OF b])
  with r1 r2 show ?thesis by simp
qed

section \<open>Properties of the image handler\<close>

lemma size_mb_over_limit:
  "((of_nat n :: rat) / (1024 * 1024) > of_nat MAX_SIZE_MB) = (n > 20 * 1024 * 1024)"
proof -
  have "((of_nat n :: rat) / 1048576 > 20) = ((of_nat n :: rat) > 20 * 1048576)"
    by (simp add: pos_less_divide_eq)
  also have "\<dots> = ((of_nat n :: rat) > of_nat 20971520)" by simp
  also have "\<dots> = (n > 20971520)" by (simp only: of_nat_less_iff)
  finally show ?thesis by (simp add: MAX_SIZE_MB_def)
qed

text \<open>
  C9. \<open>validate_image\<close> raises an \<open>ImageHandlerError\<close> for every existing path whose size
  exceeds the maximum of 20 MB (20 * 1024 * 1024 bytes), and for every existing path whose
  image format, as read from the data by \<open>Image.open\<close>, is not one of PNG, JPEG, JPG, GIF,
  WEBP, BMP, TIFF. The name of the path plays no part in the verdict.
\<close>

theorem validate_image_rejects:
  "(\<forall>fs path f. fs path = Some f \<and> st_size f > 20 * 1024 * 1024 \<longrightarrow>
      validate_image fs path
        = Inl (if \<not> is_file f then NotAFile path
               else TooLarge (of_nat (st_size f) / (1024 * 1024))))
   \<and> (\<forall>fs path f img. fs path = Some f \<and> image_open f = Inr img
         \<and> format img \<notin> {Some ''PNG'', Some ''JPEG'', Some ''JPG'', Some ''GIF'', Some ''WEBP'',
                           Some ''BMP'', Some ''TIFF''} \<longrightarrow>
      validate_image fs path
        = Inl (if \<not> is_file f then NotAFile path
               else if st_size f > 20 * 1024 * 1024
               then TooLarge (of_nat (st_size f) / (1024 * 1024))
               else UnsupportedFormat (format img)))"
proof (intro conjI allI impI)
  fix fs :: filesystem and path f
  assume a: "fs path = Some f \<and> st_size f > 20 * 1024 * 1024"
  then have "(of_nat (st_size f) :: rat) / (1024 * 1024) > of_nat MAX_SIZE_MB"
    by (simp only: size_mb_over_limit)
  with a show "validate_image fs path
        = Inl (if \<not> is_file f then NotAFile path
               else TooLarge (of_nat (st_size f) / (1024 * 1024)))"
    by (simp add: validate_image_def Let_def)
next
  fix fs :: filesystem and path f img
  assume a: "fs path = Some f \<and> image_open f = Inr img
         \<and> format img \<notin> {Some ''PNG'', Some ''JPEG'', Some ''JPG'', Some ''GIF'', Some ''WEBP'',
                           Some ''BMP'', Some ''TIFF''}"
  then have u: "\<not> (case format img of None \<Rightarrow> False
                    | Some fmt \<Rightarrow> fmt \<in> set SUPPORTED_FORMATS)"
    by (cases "format img") (simp_all add: SUPPORTED_FORMATS_def)
  from a u show "validate_image fs path
        = Inl (if \<not> is_file f then NotAFile path
               else if st_size f > 20 * 1024 * 1024
               then TooLarge (of_nat (st_size f) / (1024 * 1024))
               else UnsupportedFormat (format img))"
    unfolding validate_image_def Let_def size_mb_over_limit by simp
qed

theorem validate_image_rejects_witness:
  "validate_image
     [''scan.png'' \<mapsto> \<lparr>is_file = True, st_size = 20971521,
                        image_open = Inr \<lparr>format = Some ''PNG'', size_img = (10, 10)\<rparr>\<rparr>]
     ''scan.png'' = Inl (TooLarge (20971521 / 1048576))
   \<and> validate_image
     [''scan.png'' \<mapsto> \<lparr>is_file = True, st_size = 2048,
                        image_open = Inr \<lparr>format = Some ''ICO'', size_img = (10, 10)\<rparr>\<rparr>]
     ''scan.png'' = Inl (UnsupportedFormat (Some ''ICO''))"
proof -
  note t = validate_image_rejects
  let ?big = "\<lparr>is_file = True, st_size = 20971521,
                image_open = Inr \<lparr>format = Some ''PNG'', size_img = (10, 10)\<rparr>\<rparr>"
  let ?ico = "\<lparr>is_file = True, st_size = 2048,
                image_open = Inr \<lparr>format = Some ''ICO'', size_img = (10, 10)\<rparr>\<rparr>"
  have "[''scan.png'' \<mapsto> ?big] ''scan.png'' = Some ?big \<and> st_size ?big > 20 * 1024 * 1024"
    by simp
  from t [THEN conjunct1, rule_format, of "[''scan.png'' \<mapsto> ?big]" "''scan.png''" ?big, OF this]
  have r1: "validate_image [''scan.png'' \<mapsto> ?big] ''scan.png''
              = Inl (TooLarge (20971521 / 1048576))"
    by simp
  have "[''scan.png'' \<mapsto> ?ico] ''scan.png'' = Some ?ico
        \<and> image_open ?ico = Inr \<lparr>format = Some ''ICO'', size_img = (10, 10)\<rparr>
        \<and> format \<lparr>format = Some ''ICO'', size_img = (10, 10)\<rparr>
            \<notin> {Some ''PNG'', Some ''JPEG'', Some ''JPG'', Some ''GIF'', Some ''WEBP'',
                Some ''BMP'', Some ''TIFF''}"
    by simp
  from t [THEN conjunct2, rule_format, of "[''scan.png'' \<mapsto> ?ico]" "''scan.png''" ?ico
            "\<lparr>format = Some ''ICO'', size_img = (10, 10)\<rparr>", OF this]
  have r2: "validate_image [''scan.png'' \<mapsto> ?ico] ''scan.png''
              = Inl (UnsupportedFormat (Some ''ICO''))"
    by simp
  from r1 r2 show ?thesis by simp
qed

lemma validate_image_accepts_at_limit:
  "validate_image
     [''scan.bin'' \<mapsto> \<lparr>is_file = True, st_size = 20971520,
                        image_open = Inr \<lparr>format = Some ''PNG'', size_img = (10, 10)\<rparr>\<rparr>]
     ''scan.bin'' = Inr True"
  by (simp add: validate_image_def MAX_SIZE_MB_def SUPPORTED_FORMATS_def)

section \<open>Properties of the vision client\<close>

text \<open>
  C1 as amended. With the fallback allowed and a fallback provider configured, if the call
  of the primary provider raises and the call of the fallback provider raises too, then
  \<open>analyze_image\<close> raises one \<open>VisionClientError\<close>. Its message is the sentence that both
  the primary and the fallback model failed, followed by the text of the last error, that
  of the fallback.
\<close>

theorem analyze_image_both_fail:
  assumes "fallback_model self \<noteq> NONE"
    and "fallback_model self \<noteq> primary_model self"
    and "call_model self (primary_model self) prompt image_path w = Some (Inl e1, w1)"
    and "call_model self (fallback_model self) prompt image_path w1 = Some (Inl e2, w2)"
  shows "analyze_image self image_path prompt True w
           = (Inl (VisionClientError
                     (''Both primary and fallback models failed. Last error: '' @ str e2)), w2)"
  using assms
  by (simp add: analyze_image_def try_fallback_def msg_both_failed_def)

theorem analyze_image_both_fail_witness:
  "analyze_image
     \<lparr>primary_model = OPENAI, fallback_model = CLAUDE,
      anthropic_client = None,
      openai_client = Some (failing_provider ''rate limit'')\<rparr>
     ''scan.png'' ''prompt'' True (0::nat)
   = (Inl (VisionClientError
        ''Both primary and fallback models failed. Last error: Anthropic API key not configured''),
      0)"
proof -
  let ?c = "\<lparr>primary_model = OPENAI, fallback_model = CLAUDE,
      anthropic_client = None,
      openai_client = Some (failing_provider ''rate limit'')\<rparr> :: nat VisionClient"
  have a: "fallback_model ?c \<noteq> NONE" and b: "fallback_model ?c \<noteq> primary_model ?c"
    by simp_all
  have c: "call_model ?c (primary_model ?c) ''prompt'' ''scan.png'' 0
             = Some (Inl (OtherException ''rate limit''), 0)"
    by (simp add: call_model_def call_openai_def failing_provider_def)
  have d: "call_model ?c (fallback_model ?c) ''prompt'' ''scan.png'' 0
             = Some (Inl (NoAPIKeyError ''Anthropic API key not configured''), 0)"
    by (simp add: call_model_def call_claude_def)
  from analyze_image_both_fail [OF a b c d] show ?thesis by simp
qed

text \<open>
  C1 as stated fails: with a primary provider that raises \<open>timeout\<close> and a fallback
  provider that raises \<open>quota\<close>, the message of the error holds the text of the fallback
  failure and not the text of the primary failure.
\<close>

theorem analyze_image_message_omits_primary_failure:
  "analyze_image
     \<lparr>primary_model = CLAUDE, fallback_model = OPENAI,
      anthropic_client = Some (failing_provider ''timeout''),
      openai_client = Some (failing_provider ''quota'')\<rparr>
     ''scan.png'' ''prompt'' True (0::nat)
   = (Inl (VisionClientError ''Both primary and fallback models failed. Last error: quota''), 0)
   \<and> contains ''Both primary and fallback models failed. Last error: quota'' ''quota''
   \<and> \<not> contains ''Both primary and fallback models failed. Last error: quota'' ''timeout''"
  by (simp add: analyze_image_def try_fallback_def msg_both_failed_def call_model_def
        call_claude_def call_openai_def failing_provider_def)

section \<open>Properties of the converter\<close>

lemma convert_result_verdict:
  assumes "convert self fs image_path ctype auto_detect w = (Inr r, w')"
  shows "\<exists>code. (is_valid r, validation_error r)
           = (if validate_output self then validate_latex code else (True, None))"
proof -
  from assms obtain response where
    "r = \<lparr>latex_code = extract_latex_code response,
          content_type = (case ctype of None \<Rightarrow> detect_content_type (extract_latex_code response)
                          | Some ct \<Rightarrow> if auto_detect
                                       then detect_content_type (extract_latex_code response)
                                       else ct),
          raw_response = response,
          is_valid = fst (if validate_output self
                          then validate_latex (extract_latex_code response) else (True, None)),
          validation_error = snd (if validate_output self
                          then validate_latex (extract_latex_code response) else (True, None))\<rparr>"
    unfolding convert_def Let_def
    by (auto split: sum.splits prod.splits if_splits)
  then show ?thesis by (intro exI [of _ "extract_latex_code response"]) simp
qed

text \<open>
  C3. In every result that \<open>convert\<close> returns, whatever the response of the vision model
  and whether validation is on or off, \<open>is_valid = False\<close> comes with a non-empty
  \<open>validation_error\<close>, and \<open>is_valid = True\<close> comes with none.
\<close>

theorem convert_validity_invariant:
  assumes "convert self fs image_path ctype auto_detect w = (Inr r, w')"
  shows "(\<not> is_valid r \<longrightarrow> (\<exists>m. validation_error r = Some m \<and> m \<noteq> []))
         \<and> (is_valid r \<longrightarrow> validation_error r = None)"
proof -
  from convert_result_verdict [OF assms] obtain code where
    c: "(is_valid r, validation_error r)
          = (if validate_output self then validate_latex code else (True, None))"
    by blast
  show ?thesis
  proof (cases "validate_output self")
    case False
    with c show ?thesis by simp
  next
    case True
    with c have v: "validate_latex code = (is_valid r, validation_error r)" by simp
    from validate_latex_verdict [of code] show ?thesis
      unfolding v by auto
  qed
qed


theorem convert_validity_invariant_witness:
  "\<exists>r. convert
         \<lparr>vision_client =
            \<lparr>primary_model = CLAUDE, fallback_model = NONE,
             anthropic_client = Some (answering_provider (BS # ''frac{a}{b'')),
             openai_client = None\<rparr>,
          validate_output = True, PROMPTS = Map.empty, GENERAL_PROMPT = ''prompt''\<rparr>
         [''scan.png'' \<mapsto> \<lparr>is_file = True, st_size = 2048,
            image_open = Inr \<lparr>format = Some ''PNG'', size_img = (10, 10)\<rparr>\<rparr>]
         ''scan.png'' None True (0::nat) = (Inr r, 0)
       \<and> \<not> is_valid r \<and> (\<exists>m. validation_error r = Some m \<and> m \<noteq> [])"
proof -
  let ?self = "\<lparr>vision_client =
            \<lparr>primary_model = CLAUDE, fallback_model = NONE,
             anthropic_client = Some (answering_provider (BS # ''frac{a}{b'')),
             openai_client = None\<rparr>,
          validate_output = True, PROMPTS = Map.empty, GENERAL_PROMPT = ''prompt''\<rparr>
          :: nat ImageToLaTeXConverter"
  let ?fs = "[''scan.png'' \<mapsto> \<lparr>is_file = True, st_size = 2048,
            image_open = Inr \<lparr>format = Some ''PNG'', size_img = (10, 10)\<rparr>\<rparr>]"
  let ?r = "\<lparr>latex_code = BS # ''frac{a}{b'', content_type = EQUATION,
             raw_response = BS # ''frac{a}{b'', is_valid = False,
             validation_error = Some msg_braces\<rparr>"
  have i: "validate_image ?fs ''scan.png'' = Inr True"
    by (simp add: validate_image_def MAX_SIZE_MB_def SUPPORTED_FORMATS_def)
  have a: "analyze_image
             \<lparr>primary_model = CLAUDE, fallback_model = NONE,
              anthropic_client = Some (answering_provider (BS # ''frac{a}{b'')),
              openai_client = None\<rparr> ''scan.png'' ''prompt'' True (0::nat)
             = (Inr (BS # ''frac{a}{b''), 0)"
    by (simp add: analyze_image_def call_model_def call_claude_def answering_provider_def)
  have x: "extract_latex_code (BS # ''frac{a}{b'') = BS # ''frac{a}{b''"
    by (simp add: extract_latex_code_def remove_fences_def extract_step_def SKIP_PHRASES_def
          strip_def isspace_def lower_def lower_char_def startswith_def)
  have d: "detect_content_type (BS # ''frac{a}{b'') = EQUATION"
    by (simp add: detect_content_type_def lower_def lower_char_def)
  have v: "validate_latex (BS # ''frac{a}{b'') = (False, Some msg_braces)"
    by (simp add: validate_latex_def count_str_def)
  have e: "convert ?self ?fs ''scan.png'' None True 0 = (Inr ?r, 0)"
    unfolding convert_def i by (simp add: a x d v Let_def)
  from convert_validity_invariant [OF e] have "\<exists>m. validation_error ?r = Some m \<and> m \<noteq> []"
    by simp
  with e show ?thesis by (intro exI [of _ ?r]) simp
qed

section \<open>Properties of the string operations\<close>

lemma contains_Nil: "contains s []"
  by (induction s) simp_all

lemma contains_prefix: "prefix p q \<Longrightarrow> contains s q \<Longrightarrow> contains s p"
proof (induction s)
  case Nil
  then show ?case by simp
next
  case (Cons x xs)
  from Cons.prems(2) have "prefix q (x # xs) \<or> contains xs q" by simp
  then show ?case
  proof
    assume "prefix q (x # xs)"
    with Cons.prems(1) have "prefix p (x # xs)" by (rule prefix_order.trans)
    then show ?thesis by simp
  next
    assume "contains xs q"
    with Cons.IH Cons.prems(1) show ?thesis by simp
  qed
qed

lemma contains_append_left: "contains a p \<Longrightarrow> contains (a @ b) p"
proof (induction a)
  case Nil
  then show ?case by (simp add: contains_Nil)
next
  case (Cons x xs)
  from Cons.prems have "prefix p (x # xs) \<or> contains xs p" by simp
  then show ?case
  proof
    assume "prefix p (x # xs)"
    then have "prefix p ((x # xs) @ b)" by (rule prefix_prefix)
    then show ?thesis by simp
  next
    assume "contains xs p"
    with Cons.IH show ?thesis by simp
  qed
qed

lemma prefix_before_separator:
  assumes "sep \<notin> set p"
  shows "prefix p (a @ sep # b) = prefix p a"
proof
  assume "prefix p (a @ sep # b)"
  then have "prefix p a \<or> (\<exists>us. p = a @ us \<and> prefix us (sep # b))"
    by (simp add: prefix_append)
  then show "prefix p a"
  proof
    assume "\<exists>us. p = a @ us \<and> prefix us (sep # b)"
    then obtain us where u: "p = a @ us" "prefix us (sep # b)" by blast
    from u(2) have "us = [] \<or> (\<exists>vs. us = sep # vs)"
      by (cases us) (simp_all)
    with u(1) assms have "us = []" by auto
    with u(1) show "prefix p a" by simp
  qed
next
  assume "prefix p a"
  then show "prefix p (a @ sep # b)" by (rule prefix_prefix)
qed

lemma contains_separator:
  assumes "sep \<notin> set p"
  shows "contains (a @ sep # b) p = (contains a p \<or> contains b p)"
proof (induction a)
  case Nil
  show ?case
  proof (cases p)
    case Nil
    then show ?thesis by (simp add: contains_Nil)
  next
    case (Cons y ys)
    with assms have "y \<noteq> sep" by auto
    with Cons show ?thesis by simp
  qed
next
  case (Cons x xs)
  have "prefix p ((x # xs) @ sep # b) = prefix p (x # xs)"
    using assms by (rule prefix_before_separator)
  with Cons.IH show ?case by auto
qed

lemma replace_absent:
  "old \<noteq> [] \<Longrightarrow> \<not> contains s old \<Longrightarrow> replace s old new = s"
  by (induction s) simp_all

lemma contains_single: "contains s [c] = (c \<in> set s)"
  by (induction s) auto

lemma replace_single_removes: "c \<notin> set (replace s [c] [])"
proof (induction s rule: length_induct)
  case (1 s)
  show ?case
  proof (cases s)
    case Nil
    then show ?thesis by simp
  next
    case (Cons x xs)
    with 1 have ih: "c \<notin> set (replace xs [c] [])" by simp
    from Cons ih show ?thesis by auto
  qed
qed

lemma strip_subset: "set (strip s) \<subseteq> set s"
proof -
  have "set (strip s) \<subseteq> set (dropWhile isspace s)"
    unfolding strip_def using set_dropWhileD by fastforce
  also have "\<dots> \<subseteq> set s" using set_dropWhileD by fastforce
  finally show ?thesis .
qed

lemma strip_fixed:
  assumes "s \<noteq> []" "\<not> isspace (hd s)" "\<not> isspace (last s)"
  shows "strip s = s"
proof -
  from assms have a: "dropWhile isspace s = s"
    by (simp add: dropWhile_eq_self_iff)
  from assms have "dropWhile isspace (rev s) = rev s"
    by (simp add: dropWhile_eq_self_iff hd_rev)
  with a show ?thesis by (simp add: strip_def)
qed

lemma strip_ends:
  assumes "strip s \<noteq> []"
  shows "\<not> isspace (hd (strip s)) \<and> \<not> isspace (last (strip s))"
proof -
  let ?t = "dropWhile isspace s"
  let ?d = "dropWhile isspace (rev ?t)"
  have u: "strip s = rev ?d" by (simp add: strip_def)
  with assms have d: "?d \<noteq> []" by simp
  then have "\<not> isspace (hd ?d)" by (rule hd_dropWhile)
  then have l: "\<not> isspace (last (strip s))"
    using d by (simp add: u last_rev)
  have "takeWhile isspace (rev ?t) @ ?d = rev ?t" by (rule takeWhile_dropWhile_id)
  then have "rev (takeWhile isspace (rev ?t) @ ?d) = rev (rev ?t)" by (rule arg_cong)
  then have "rev ?d @ rev (takeWhile isspace (rev ?t)) = ?t"
    by (simp only: rev_append rev_rev_ident)
  then have t: "?t = strip s @ rev (takeWhile isspace (rev ?t))"
    by (simp only: u)
  with assms have "hd ?t = hd (strip s)" by (metis hd_append2)
  moreover from t assms have "?t \<noteq> []" by (metis Nil_is_append_conv)
  then have "\<not> isspace (hd ?t)" by (rule hd_dropWhile)
  ultimately show ?thesis using l by simp
qed

lemma strip_idem: "strip (strip s) = strip s"
proof (cases "strip s = []")
  case True
  have "strip [] = []" by (simp add: strip_def)
  with True show ?thesis by simp
next
  case False
  from strip_ends [OF False] False show ?thesis by (intro strip_fixed) simp_all
qed

section \<open>Properties of the extractor\<close>

lemma extract_step_idle:
  assumes "\<not> startswith (strip line) [BS]" "\<not> startswith (strip line) ''$''"
  shows "extract_step (False, []) line = (False, [])"
  using assms by (simp add: extract_step_def Let_def)

lemma extract_loop_idle:
  assumes "\<forall>line \<in> set lines.
             \<not> startswith (strip line) [BS] \<and> \<not> startswith (strip line) ''$''"
  shows "foldl extract_step (False, []) lines = (False, [])"
  using assms by (induction lines) (simp_all add: extract_step_idle)

lemma contains_fence_prefix:
  assumes "\<not> contains s ''```''"
  shows "\<not> contains s (''```'' @ rest)"
proof
  assume "contains s (''```'' @ rest)"
  with contains_prefix [of "''```''" "''```'' @ rest" s] have "contains s ''```''"
    by simp
  with assms show False by simp
qed

lemma remove_fences_absent:
  assumes "\<not> contains text ''```''"
  shows "remove_fences text = text"
proof -
  have a: "replace text (''```latex'' @ [NL]) [] = text"
    using contains_fence_prefix [OF assms, of "''latex'' @ [NL]"]
    by (intro replace_absent) simp_all
  have b: "replace text (''```tex'' @ [NL]) [] = text"
    using contains_fence_prefix [OF assms, of "''tex'' @ [NL]"]
    by (intro replace_absent) simp_all
  have c: "replace text (''```'' @ [NL]) [] = text"
    using contains_fence_prefix [OF assms, of "[NL]"]
    by (intro replace_absent) simp_all
  have d: "replace text ''```'' [] = text"
    using assms by (intro replace_absent) simp_all
  show ?thesis
    unfolding remove_fences_def Let_def a b c d ..
qed

text \<open>
  C2 as amended. When no line of the text, after the code fences are removed, begins with
  a backslash or a dollar sign (leading whitespace aside), \<open>extract_latex_code\<close> returns
  the text without its code fences, trimmed of whitespace. That is the original input
  trimmed when the input holds no fence marker.
\<close>

theorem extract_latex_code_no_latex:
  assumes "\<forall>line \<in> set (split (remove_fences text) NL).
             \<not> startswith (strip line) [BS] \<and> \<not> startswith (strip line) ''$''"
  shows "extract_latex_code text = strip (remove_fences text)
         \<and> (\<not> contains text ''```'' \<longrightarrow> extract_latex_code text = strip text)"
proof -
  from assms have "foldl extract_step (False, []) (split (remove_fences text) NL) = (False, [])"
    by (rule extract_loop_idle)
  moreover have "strip [] = []" by (simp add: strip_def)
  ultimately have e: "extract_latex_code text = strip (remove_fences text)"
    by (simp add: extract_latex_code_def Let_def)
  then show ?thesis by (simp add: remove_fences_absent)
qed

theorem extract_latex_code_no_latex_witness:
  "extract_latex_code ('' ```Here is nothing``` '' @ [NL]) = ''Here is nothing''
   \<and> extract_latex_code ('' no latex '' @ [NL] @ ''at all '') = ''no latex '' @ [NL] @ ''at all''"
proof -
  note ev = remove_fences_def strip_def isspace_def startswith_def
  let ?a = "'' ```Here is nothing``` '' @ [NL]"
  let ?b = "'' no latex '' @ [NL] @ ''at all ''"
  have fa: "remove_fences ?a = '' Here is nothing '' @ [NL]" by (simp add: remove_fences_def)
  have "\<forall>line \<in> set (split (remove_fences ?a) NL).
             \<not> startswith (strip line) [BS] \<and> \<not> startswith (strip line) ''$''"
    unfolding fa by (simp add: ev)
  from extract_latex_code_no_latex [OF this]
  have r1: "extract_latex_code ?a = ''Here is nothing''"
    unfolding fa by (simp add: strip_def isspace_def)
  have fb: "remove_fences ?b = ?b" by (simp add: remove_fences_def)
  have "\<forall>line \<in> set (split (remove_fences ?b) NL).
             \<not> startswith (strip line) [BS] \<and> \<not> startswith (strip line) ''$''"
    unfolding fb by (simp add: ev)
  from extract_latex_code_no_latex [OF this]
  have r2: "extract_latex_code ?b = ''no latex '' @ [NL] @ ''at all''"
    unfolding fb by (simp add: strip_def isspace_def)
  from r1 r2 show ?thesis by simp
qed

text \<open>
  C2 as stated fails: no line of \<open>```hello```\<close> begins with a backslash or a dollar sign
  once the fences are removed, and the result is \<open>hello\<close>, not the input trimmed of
  whitespace, which is the input itself.
\<close>

theorem extract_latex_code_drops_fences:
  "split (remove_fences ''```hello```'') NL = [''hello'']
   \<and> \<not> startswith (strip ''hello'') [BS] \<and> \<not> startswith (strip ''hello'') ''$''
   \<and> strip ''```hello```'' = ''```hello```''
   \<and> extract_latex_code ''```hello```'' = ''hello''
   \<and> extract_latex_code ''```hello```'' \<noteq> strip ''```hello```''"
  by (simp add: extract_latex_code_def remove_fences_def extract_step_def SKIP_PHRASES_def
        strip_def isspace_def lower_def lower_char_def startswith_def)

section \<open>Properties of the equation wrapper\<close>

text \<open>The body that \<open>wrap_equation\<close> wraps: the input without delimiters, trimmed.\<close>

lemma wrap_equation_display:
  "wrap_equation s False =
     (let code = strip (foldl (\<lambda>code delim. replace code delim []) (strip s) DELIMITERS)
      in if contains code [BS, BS] \<or> contains (lower code) ''align''
         then (if \<not> startswith code (BS # ''begin{align'')
               then BS # ''begin{align}'' @ [NL] @ code @ [NL] @ BS # ''end{align}''
               else code)
         else (if \<not> startswith code (BS # ''begin{equation'')
               then BS # ''begin{equation}'' @ [NL] @ code @ [NL] @ BS # ''end{equation}''
               else code))"
  by (simp add: wrap_equation_def Let_def)

lemma cleaned_no_dollar:
  "CHR ''$'' \<notin> set (strip (foldl (\<lambda>code delim. replace code delim []) t DELIMITERS))"
proof -
  have "CHR ''$'' \<notin> set (foldl (\<lambda>code delim. replace code delim []) t DELIMITERS)"
    unfolding DELIMITERS_def using replace_single_removes [of "CHR ''$''"] by simp
  with strip_subset show ?thesis by blast
qed

lemma cleaned_stripped:
  "strip (strip (foldl (\<lambda>code delim. replace code delim []) t DELIMITERS))
     = strip (foldl (\<lambda>code delim. replace code delim []) t DELIMITERS)"
  by (rule strip_idem)

lemma delimiters_absent:
  assumes "\<not> contains out [BS, CHR ''['']" "\<not> contains out [BS, CHR '']'']"
    and "CHR ''$'' \<notin> set out"
  shows "foldl (\<lambda>code delim. replace code delim []) out DELIMITERS = out"
proof -
  from assms(3) have d1: "\<not> contains out ''$''" by (simp add: contains_single)
  have "prefix ''$'' ''$$''" by simp
  from contains_prefix [OF this] d1 have d2: "\<not> contains out ''$$''" by blast
  have r1: "replace out [BS, CHR ''[''] [] = out" using assms(1) by (intro replace_absent) simp_all
  have r2: "replace out [BS, CHR '']''] [] = out" using assms(2) by (intro replace_absent) simp_all
  have r3: "replace out ''$$'' [] = out" using d2 by (intro replace_absent) simp_all
  have r4: "replace out ''$'' [] = out" using d1 by (intro replace_absent) simp_all
  show ?thesis by (simp add: DELIMITERS_def r1 r2 r3 r4)
qed

lemma lower_NL: "lower_char NL = NL"
  by (simp add: lower_char_def)

lemma wrapped_contains:
  assumes "NL \<notin> set p"
  shows "contains (a @ [NL] @ code @ [NL] @ b) p
           = (contains a p \<or> contains code p \<or> contains b p)"
proof -
  have "contains (a @ NL # (code @ NL # b)) p
          = (contains a p \<or> contains (code @ NL # b) p)"
    using assms by (rule contains_separator)
  also have "contains (code @ NL # b) p = (contains code p \<or> contains b p)"
    using assms by (rule contains_separator)
  finally show ?thesis by simp
qed


lemma equation_wrapper_fixed:
  assumes nb: "\<not> contains code [BS, BS]"
    and na: "\<not> contains (lower code) ''align''"
    and st: "strip code = code"
    and nd: "CHR ''$'' \<notin> set code"
    and out: "out = code \<and> startswith code (BS # ''begin{equation'')
              \<or> out = (BS # ''begin{equation}'') @ [NL] @ code @ [NL]
                        @ (BS # ''end{equation}'')"
    and h2: "\<not> contains out [BS, CHR ''['']"
    and h3: "\<not> contains out [BS, CHR '']'']"
  shows "wrap_equation out False = out"
proof -
  let ?E1 = "BS # ''begin{equation}''" and ?E2 = "BS # ''end{equation}''"
  have p1: "strip out = out"
    using out
  proof
    assume "out = code \<and> startswith code (BS # ''begin{equation'')"
    with st show ?thesis by simp
  next
    assume o: "out = ?E1 @ [NL] @ code @ [NL] @ ?E2"
    show ?thesis
      unfolding o by (rule strip_fixed) (simp_all add: isspace_def)
  qed
  have p2: "CHR ''$'' \<notin> set out"
    using out nd by auto
  have p3: "\<not> contains out [BS, BS]"
    using out
  proof
    assume "out = code \<and> startswith code (BS # ''begin{equation'')"
    with nb show ?thesis by simp
  next
    assume o: "out = ?E1 @ [NL] @ code @ [NL] @ ?E2"
    have "contains (?E1 @ [NL] @ code @ [NL] @ ?E2) [BS, BS]
            = (contains ?E1 [BS, BS] \<or> contains code [BS, BS] \<or> contains ?E2 [BS, BS])"
      by (rule wrapped_contains) simp
    with nb show ?thesis unfolding o by simp
  qed
  have p4: "\<not> contains (lower out) ''align''"
    using out
  proof
    assume "out = code \<and> startswith code (BS # ''begin{equation'')"
    with na show ?thesis by simp
  next
    assume o: "out = ?E1 @ [NL] @ code @ [NL] @ ?E2"
    have l: "lower out = ?E1 @ [NL] @ lower code @ [NL] @ ?E2"
      unfolding o by (simp add: lower_def lower_char_def)
    have "contains (?E1 @ [NL] @ lower code @ [NL] @ ?E2) ''align''
            = (contains ?E1 ''align'' \<or> contains (lower code) ''align''
               \<or> contains ?E2 ''align'')"
      by (rule wrapped_contains) simp
    with na show ?thesis unfolding l by simp
  qed
  have p5: "startswith out (BS # ''begin{equation'')"
    using out by (auto simp: startswith_def)
  have c: "strip (foldl (\<lambda>code delim. replace code delim []) (strip out) DELIMITERS) = out"
    by (simp only: p1 delimiters_absent [OF h2 h3 p2])
  show ?thesis
    unfolding wrap_equation_display c Let_def using p3 p4 p5 by simp
qed

lemma wrap_equation_fixpoint:
  assumes h1: "\<not> contains (wrap_equation s False) ''align''"
    and h2: "\<not> contains (wrap_equation s False) [BS, CHR ''['']"
    and h3: "\<not> contains (wrap_equation s False) [BS, CHR '']'']"
  shows "wrap_equation (wrap_equation s False) False = wrap_equation s False"
proof -
  define code where
    "code = strip (foldl (\<lambda>code delim. replace code delim []) (strip s) DELIMITERS)"
  have w: "wrap_equation s False =
      (if contains code [BS, BS] \<or> contains (lower code) ''align''
       then (if \<not> startswith code (BS # ''begin{align'')
             then BS # ''begin{align}'' @ [NL] @ code @ [NL] @ BS # ''end{align}''
             else code)
       else (if \<not> startswith code (BS # ''begin{equation'')
             then BS # ''begin{equation}'' @ [NL] @ code @ [NL] @ BS # ''end{equation}''
             else code))"
    unfolding wrap_equation_display code_def Let_def ..
  have eq: "\<not> (contains code [BS, BS] \<or> contains (lower code) ''align'')"
  proof
    assume m: "contains code [BS, BS] \<or> contains (lower code) ''align''"
    show False
    proof (cases "startswith code (BS # ''begin{align'')")
      case True
      with m w have o: "wrap_equation s False = code" by simp
      from True obtain r where r: "code = (BS # ''begin{align'') @ r"
        by (auto simp: startswith_def prefix_def)
      have "contains (BS # ''begin{align'') ''align''" by simp
      then have "contains ((BS # ''begin{align'') @ r) ''align''"
        by (rule contains_append_left)
      with h1 o r show False by simp
    next
      case False
      with m w have o: "wrap_equation s False
          = (BS # ''begin{align}'') @ ([NL] @ code @ [NL] @ BS # ''end{align}'')"
        by simp
      have "contains (BS # ''begin{align}'') ''align''" by simp
      then have "contains ((BS # ''begin{align}'') @ ([NL] @ code @ [NL] @ BS # ''end{align}''))
          ''align''"
        by (rule contains_append_left)
      with h1 o show False by simp
    qed
  qed
  then have nb: "\<not> contains code [BS, BS]" and na: "\<not> contains (lower code) ''align''"
    by simp_all
  have st: "strip code = code" unfolding code_def by (rule strip_idem)
  have nd: "CHR ''$'' \<notin> set code" unfolding code_def by (rule cleaned_no_dollar)
  from w eq have out: "wrap_equation s False = code \<and> startswith code (BS # ''begin{equation'')
      \<or> wrap_equation s False
          = (BS # ''begin{equation}'') @ [NL] @ code @ [NL] @ (BS # ''end{equation}'')"
    by (cases "startswith code (BS # ''begin{equation'')") simp_all
  from nb na st nd out h2 h3 show ?thesis by (rule equation_wrapper_fixed)
qed

text \<open>
  C7 as amended. For every input that holds no \<open>\\\<close> and no \<open>align\<close>, and whose display
  output holds no \<open>align\<close> and neither of the delimiters \<open>\[\<close> and \<open>\]\<close>, wrapping the display
  output again leaves it as it is.
\<close>

theorem wrap_equation_display_idempotent:
  assumes "\<not> contains s [BS, BS]"
    and "\<not> contains s ''align''"
    and "\<not> contains (wrap_equation s False) ''align''"
    and "\<not> contains (wrap_equation s False) [BS, CHR ''['']"
    and "\<not> contains (wrap_equation s False) [BS, CHR '']'']"
  shows "wrap_equation (wrap_equation s False) False = wrap_equation s False"
  using assms(3-5) by (rule wrap_equation_fixpoint)

lemmas wrap_eval =
  wrap_equation_def DELIMITERS_def strip_def isspace_def lower_def lower_char_def startswith_def

theorem wrap_equation_display_idempotent_witness:
  "wrap_equation (wrap_equation '' $E = mc^2$ '' False) False
     = BS # ''begin{equation}'' @ [NL] @ ''E = mc^2'' @ [NL] @ BS # ''end{equation}''"
proof -
  let ?s = "'' $E = mc^2$ ''"
  have o: "wrap_equation ?s False
             = BS # ''begin{equation}'' @ [NL] @ ''E = mc^2'' @ [NL] @ BS # ''end{equation}''"
    by (simp add: wrap_eval)
  have a: "\<not> contains ?s [BS, BS]" and b: "\<not> contains ?s ''align''" by simp_all
  have c: "\<not> contains (wrap_equation ?s False) ''align''"
    and d: "\<not> contains (wrap_equation ?s False) [BS, CHR ''['']"
    and e: "\<not> contains (wrap_equation ?s False) [BS, CHR '']'']"
    unfolding o by simp_all
  from wrap_equation_display_idempotent [OF a b c d e] show ?thesis
    unfolding o .
qed

text \<open>
  C7 as stated fails. The input \<open>\$[\<close> holds no \<open>\\\<close> and no \<open>align\<close>; removing the dollar
  sign leaves \<open>\[\<close>, which is wrapped in an equation environment with no \<open>align\<close> in it. The
  second application removes that \<open>\[\<close>, so its result differs from the first.
\<close>

theorem wrap_equation_not_idempotent:
  "\<not> contains [BS, CHR ''$'', CHR ''[''] [BS, BS]
   \<and> \<not> contains [BS, CHR ''$'', CHR ''[''] ''align''
   \<and> wrap_equation [BS, CHR ''$'', CHR ''[''] False
       = BS # ''begin{equation}'' @ [NL] @ [BS, CHR ''[''] @ [NL] @ BS # ''end{equation}''
   \<and> \<not> contains (wrap_equation [BS, CHR ''$'', CHR ''[''] False) ''align''
   \<and> \<not> contains (wrap_equation [BS, CHR ''$'', CHR ''[''] False) [BS, BS]
   \<and> wrap_equation (wrap_equation [BS, CHR ''$'', CHR ''[''] False) False
       = BS # ''begin{equation}'' @ [NL] @ [NL] @ BS # ''end{equation}''
   \<and> wrap_equation (wrap_equation [BS, CHR ''$'', CHR ''[''] False) False
       \<noteq> wrap_equation [BS, CHR ''$'', CHR ''[''] False"
proof -
  have o: "wrap_equation [BS, CHR ''$'', CHR ''[''] False
       = BS # ''begin{equation}'' @ [NL] @ [BS, CHR ''[''] @ [NL] @ BS # ''end{equation}''"
    by (simp add: wrap_eval)
  have t: "wrap_equation
         (BS # ''begin{equation}'' @ [NL] @ [BS, CHR ''[''] @ [NL] @ BS # ''end{equation}'') False
       = BS # ''begin{equation}'' @ [NL] @ [NL] @ BS # ''end{equation}''"
    by (simp add: wrap_eval)
  show ?thesis unfolding o t by simp
qed

end
